theory Spec2Isabelle
  imports Complex_Main
begin

section \<open>Conductance formulas of \<open>jaxley/utils/cell_utils.py\<close>\<close>

text \<open>
  The source computes on floating-point scalars. The embedding uses exact real
  arithmetic: rounding, overflow and underflow are not part of the model. Division by
  zero (infinity or NaN in the source) is the only place where HOL's total division
  differs on exact values, so statements about values keep denominators non-zero.
\<close>

definition compute_coupling_cond :: "real \<Rightarrow> real \<Rightarrow> real \<Rightarrow> real \<Rightarrow> real \<Rightarrow> real \<Rightarrow> real" where
  \<comment> \<open>\<open>rad1 * rad2**2 / (r_a1 * rad2**2 * l1 + r_a2 * rad1**2 * l2) / l1 * 10**7\<close>\<close>
  "compute_coupling_cond rad1 rad2 r_a1 r_a2 l1 l2 =
     rad1 * rad2\<^sup>2 / (r_a1 * rad2\<^sup>2 * l1 + r_a2 * rad1\<^sup>2 * l2) / l1 * 10 ^ 7"

definition compute_coupling_cond_branchpoint :: "real \<Rightarrow> real \<Rightarrow> real \<Rightarrow> real" where
  \<comment> \<open>\<open>rad / r_a / l**2 * 10**7\<close>\<close>
  "compute_coupling_cond_branchpoint rad r_a l = rad / r_a / l\<^sup>2 * 10 ^ 7"

definition compute_impact_on_node :: "real \<Rightarrow> real \<Rightarrow> real \<Rightarrow> real" where
  \<comment> \<open>\<open>rad**2 / r_a / l\<close>\<close>
  "compute_impact_on_node rad r_a l = rad\<^sup>2 / r_a / l"

text \<open>
  \<open>Cell.init_cell_conds\<close> of \<open>jaxley/modules/cell.py\<close>: two calls of
  \<open>compute_coupling_cond\<close> with the roles exchanged, each result multiplied by
  \<open>10**7\<close> in place; the pair (forward, backward) is returned.
\<close>

definition init_cell_conds :: "real \<Rightarrow> real \<Rightarrow> real \<Rightarrow> real \<Rightarrow> real \<Rightarrow> real \<Rightarrow> real \<times> real" where
  "init_cell_conds ra_parent ra_child r_parent r_child l_parent l_child =
     (let branch_conds_fwd = compute_coupling_cond r_child r_parent ra_child ra_parent l_child l_parent;
          branch_conds_bwd = compute_coupling_cond r_parent r_child ra_parent ra_child l_parent l_child;
          branch_conds_fwd = branch_conds_fwd * 10 ^ 7;
          branch_conds_bwd = branch_conds_bwd * 10 ^ 7
      in (branch_conds_fwd, branch_conds_bwd))"

text \<open>
  The coupling formula as the specification words it (section 4.4), before the unit
  scaling: the sink's resistivity is paired with the source's length and the source's
  resistivity with the sink's length.
\<close>

definition spec_coupling_formula :: "real \<Rightarrow> real \<Rightarrow> real \<Rightarrow> real \<Rightarrow> real \<Rightarrow> real \<Rightarrow> real" where
  "spec_coupling_formula rad_sink rad_source ra_sink ra_source len_sink len_source =
     rad_sink * rad_source\<^sup>2
       / (ra_sink * rad_source\<^sup>2 * len_source + ra_source * rad_sink\<^sup>2 * len_sink) / len_sink"

text \<open>
  The same formula with each resistivity paired with the length of its own compartment.
\<close>

definition own_length_coupling_formula :: "real \<Rightarrow> real \<Rightarrow> real \<Rightarrow> real \<Rightarrow> real \<Rightarrow> real \<Rightarrow> real" where
  "own_length_coupling_formula rad_sink rad_source ra_sink ra_source len_sink len_source =
     rad_sink * rad_source\<^sup>2
       / (ra_sink * rad_source\<^sup>2 * len_sink + ra_source * rad_sink\<^sup>2 * len_source) / len_sink"

section \<open>Arrays, indexing and errors\<close>

text \<open>
  Arrays are lists. An exception of the source is a value \<open>Inl e\<close>; a normal return
  is \<open>Inr v\<close>.
\<close>

datatype error = IndexError | ShapeError

definition py_index :: "'a list \<Rightarrow> int \<Rightarrow> error + 'a" where
  \<comment> \<open>\<open>xs[i]\<close>: an index below zero is taken from the end. Outside the array numpy
     raises \<open>IndexError\<close>, and the model stops there with that error.\<close>
  "py_index xs i =
     (if 0 \<le> i \<and> i < int (length xs) then Inr (xs ! nat i)
      else if - int (length xs) \<le> i \<and> i < 0 then Inr (xs ! nat (i + int (length xs)))
      else Inl IndexError)"

fun gather :: "'a list \<Rightarrow> int list \<Rightarrow> error + 'a list" where
  \<comment> \<open>\<open>xs[inds]\<close> with an array of indices, position by position. The parameter
     arrays may be library arrays that do not raise on an index outside the array; every
     statement about \<open>gather\<close> below is for indices inside it.\<close>
  "gather xs [] = Inr []"
| "gather xs (i # inds) =
     (case py_index xs i of
        Inl e \<Rightarrow> Inl e
      | Inr x \<Rightarrow> (case gather xs inds of Inl e \<Rightarrow> Inl e | Inr ys \<Rightarrow> Inr (x # ys)))"

definition on_ok :: "error + 'a \<Rightarrow> ('a \<Rightarrow> error + 'b) \<Rightarrow> error + 'b" where
  \<comment> \<open>sequencing: an exception of the first step ends the computation\<close>
  "on_ok r f = (case r of Inl e \<Rightarrow> Inl e | Inr x \<Rightarrow> f x)"

section \<open>Topology: \<open>compute_levels\<close>\<close>

text \<open>
  \<open>levels = np.zeros_like(parents)\<close>, then for every position \<open>i\<close> with parent \<open>p\<close>,
  in increasing order: \<open>levels[i] = 0\<close> if \<open>p == -1\<close>, else
  \<open>levels[i] = levels[p] + 1\<close>. The loop is \<open>levels_loop\<close>, with the position and the
  array passed along.
\<close>

fun levels_loop :: "nat \<Rightarrow> int list \<Rightarrow> int list \<Rightarrow> error + int list" where
  "levels_loop i [] levels = Inr levels"
| "levels_loop i (p # ps) levels =
     (if p = - 1 then levels_loop (Suc i) ps (levels[i := 0])
      else (case py_index levels p of
              Inl e \<Rightarrow> Inl e
            | Inr l \<Rightarrow> levels_loop (Suc i) ps (levels[i := l + 1])))"

definition compute_levels :: "int list \<Rightarrow> error + int list" where
  "compute_levels parents = levels_loop 0 parents (replicate (length parents) 0)"

text \<open>
  The two predicates of the level theorem: the parent array lists every parent before
  its children (\<open>- 1\<close> marks a root), and the first \<open>k\<close> entries of a level array are
  right.
\<close>

definition sorted_parents :: "int list \<Rightarrow> bool" where
  "sorted_parents ps \<longleftrightarrow>
     (\<forall>b<length ps. ps ! b = - 1 \<or> (0 \<le> ps ! b \<and> ps ! b < int b))"

definition levels_ok :: "int list \<Rightarrow> nat \<Rightarrow> int list \<Rightarrow> bool" where
  "levels_ok ps k levels \<longleftrightarrow>
     (\<forall>b<k. (ps ! b = - 1 \<longrightarrow> levels ! b = 0) \<and>
            (ps ! b \<noteq> - 1 \<longrightarrow> levels ! b = levels ! nat (ps ! b) + 1))"

section \<open>Index remapping: \<open>remap_to_consecutive\<close>\<close>

text \<open>
  \<open>jnp.unique(arr, return_inverse=True)\<close> is a library function: it returns the sorted
  distinct values of \<open>arr\<close> and, for every position of \<open>arr\<close>, the index of its value
  among them. \<open>index_in u x\<close> is the position of the first \<open>x\<close> in \<open>u\<close>.
\<close>

definition np_unique :: "int list \<Rightarrow> int list" where
  "np_unique arr = sort (remdups arr)"

fun index_in :: "int list \<Rightarrow> int \<Rightarrow> nat" where
  "index_in [] x = 0"
| "index_in (y # ys) x = (if x = y then 0 else Suc (index_in ys x))"

definition unique_inverse :: "int list \<Rightarrow> int list \<times> int list" where
  "unique_inverse arr = (let u = np_unique arr in (u, map (\<lambda>x. int (index_in u x)) arr))"

text \<open>
  The library works on its own integer type, signed 32-bit in its default mode. What
  \<open>remap_to_consecutive\<close> does depends on the type of the array it is given:
  \<^item> an array of that type is taken as it is, and the result is again such an array:
    this is \<open>remap_to_consecutive\<close>;
  \<^item> a 64-bit host array is converted first, every value keeping its low 32 bits
    (\<open>to_int32\<close>): this is \<open>remap_to_consecutive_int64\<close>.
\<close>

definition remap_to_consecutive :: "int list \<Rightarrow> int list" where
  "remap_to_consecutive arr = (let (u, inverse_indices) = unique_inverse arr in inverse_indices)"

definition to_int32 :: "int \<Rightarrow> int" where
  "to_int32 x = (x + 2 ^ 31) mod 2 ^ 32 - 2 ^ 31"

definition remap_to_consecutive_int64 :: "int list \<Rightarrow> int list" where
  "remap_to_consecutive_int64 arr = remap_to_consecutive (map to_int32 arr)"

section \<open>Branch points and edge tables\<close>

text \<open>
  A row of the \<open>branch_edges\<close> table. \<open>Cell.__init__\<close> builds the table from the parent
  array: the parents of the branches \<open>1, 2, ...\<close> beside these branch indices. The
  parent array is an array of the library's integer type, so its column reaches
  \<open>remap_to_consecutive\<close> without a conversion.
\<close>

record branch_edge =
  parent_branch_index :: int
  child_branch_index :: int

definition cell_branch_edges :: "int list \<Rightarrow> branch_edge list" where
  "cell_branch_edges comb_parents =
     map (\<lambda>(p, c). \<lparr>parent_branch_index = p, child_branch_index = c\<rparr>)
       (zip (tl comb_parents) (map int [1..<length comb_parents]))"

definition compute_children_and_parents :: "branch_edge list \<Rightarrow> int list \<times> int list \<times> int list" where
  "compute_children_and_parents branch_edges =
     (let par_inds = map parent_branch_index branch_edges;
          child_inds = map child_branch_index branch_edges;
          child_belongs_to_branchpoint = remap_to_consecutive par_inds;
          par_inds = np_unique par_inds
      in (par_inds, child_inds, child_belongs_to_branchpoint))"

text \<open>
  \<open>jnp.stack([a, b]).T\<close>: the rows \<open>(a[k], b[k])\<close>; stacking arrays of different
  lengths is an error. The returned dictionary has the keys \<open>children\<close> and
  \<open>parents\<close>, the fields \<open>children_table\<close> and \<open>parents_table\<close> here.
\<close>

definition stack_T :: "int list \<Rightarrow> int list \<Rightarrow> error + (int \<times> int) list" where
  "stack_T a b = (if length a = length b then Inr (zip a b) else Inl ShapeError)"

record morphology_indices =
  children_table :: "(int \<times> int) list"
  parents_table :: "(int \<times> int) list"

definition compute_morphology_indices_in_levels ::
  "nat \<Rightarrow> int list \<Rightarrow> int list \<Rightarrow> int list \<Rightarrow> error + morphology_indices" where
  "compute_morphology_indices_in_levels num_branchpoints child_belongs_to_branchpoint par_inds child_inds =
     (let branchpoint_inds_parents = map int [0..<num_branchpoints];
          branchpoint_inds_children = child_belongs_to_branchpoint;
          branch_inds_parents = par_inds;
          branch_inds_children = child_inds
      in case stack_T branch_inds_children branchpoint_inds_children of
           Inl e \<Rightarrow> Inl e
         | Inr cs \<Rightarrow>
             (case stack_T branch_inds_parents branchpoint_inds_parents of
                Inl e \<Rightarrow> Inl e
              | Inr ps \<Rightarrow> Inr \<lparr>children_table = cs, parents_table = ps\<rparr>))"

section \<open>Grouped summation: \<open>group_and_sum\<close>\<close>

text \<open>
  \<open>group_sums.at[inds].add(values)\<close> adds every value into the entry its index names,
  repeated indices accumulating. An index below zero counts from the end and an update
  outside the array is dropped (the library's default for updates); the values must have
  the shape of the indices or be a single value, which is repeated.
\<close>

definition add_at :: "real list \<Rightarrow> int \<Rightarrow> real \<Rightarrow> real list" where
  "add_at acc i v =
     (let j = (if i < 0 then i + int (length acc) else i)
      in if 0 \<le> j \<and> j < int (length acc) then acc[nat j := acc ! nat j + v] else acc)"

fun scatter_add :: "real list \<Rightarrow> int list \<Rightarrow> real list \<Rightarrow> real list" where
  "scatter_add acc (i # inds) (v # vs) = scatter_add (add_at acc i v) inds vs"
| "scatter_add acc inds vs = acc"

definition broadcast_to :: "real list \<Rightarrow> nat \<Rightarrow> error + real list" where
  "broadcast_to vs k =
     (if length vs = k then Inr vs
      else if length vs = 1 then Inr (replicate k (hd vs))
      else Inl ShapeError)"

definition group_and_sum :: "real list \<Rightarrow> int list \<Rightarrow> nat \<Rightarrow> error + real list" where
  "group_and_sum values_to_sum inds_to_group_by num_branchpoints =
     (let group_sums = replicate num_branchpoints 0
      in if num_branchpoints > 0
         then (case broadcast_to values_to_sum (length inds_to_group_by) of
                 Inl e \<Rightarrow> Inl e
               | Inr vs \<Rightarrow> Inr (scatter_add group_sums inds_to_group_by vs))
         else Inr group_sums)"

text \<open>The sum of the values whose group index is \<open>j\<close>.\<close>

definition group_total :: "int list \<Rightarrow> real list \<Rightarrow> nat \<Rightarrow> real" where
  "group_total inds vs j = sum_list (map snd (filter (\<lambda>(i, v). i = int j) (zip inds vs)))"

section \<open>Network assembly: \<open>compute_axial_conductances\<close>\<close>

text \<open>
  A row of the \<open>comp_edges\<close> table (columns \<open>type\<close>, \<open>source\<close>, \<open>sink\<close>) and the
  parameter dictionary with its four arrays.
\<close>

record comp_edge =
  edge_type :: int
  source :: int
  sink :: int

record cond_params =
  radius :: "real list"
  axial_resistivity :: "real list"
  length_um :: "real list"
  capacitance :: "real list"

text \<open>
  \<open>vmap(f, in_axes=(0, ...))\<close> applies \<open>f\<close> position by position. Its arguments here
  are gathered with one index array each, so they have one length.
\<close>

fun vmap6 :: "(real \<Rightarrow> real \<Rightarrow> real \<Rightarrow> real \<Rightarrow> real \<Rightarrow> real \<Rightarrow> real)
    \<Rightarrow> real list \<Rightarrow> real list \<Rightarrow> real list \<Rightarrow> real list \<Rightarrow> real list \<Rightarrow> real list \<Rightarrow> real list" where
  "vmap6 f (a # as) (b # bs) (c # cs) (d # ds) (e # es) (g # gs) =
     f a b c d e g # vmap6 f as bs cs ds es gs"
| "vmap6 f as bs cs ds es gs = []"

fun vmap3 :: "(real \<Rightarrow> real \<Rightarrow> real \<Rightarrow> real) \<Rightarrow> real list \<Rightarrow> real list \<Rightarrow> real list \<Rightarrow> real list" where
  "vmap3 f (a # as) (b # bs) (c # cs) = f a b c # vmap3 f as bs cs"
| "vmap3 f as bs cs = []"

definition conds_c2c :: "comp_edge list \<Rightarrow> cond_params \<Rightarrow> error + real list" where
  \<comment> \<open>compartment-to-compartment: the rows of type 0\<close>
  "conds_c2c comp_edges params =
     (let rows = filter (\<lambda>e. edge_type e = 0) comp_edges;
          source_comp_inds = map source rows;
          sink_comp_inds = map sink rows
      in if length sink_comp_inds > 0 then
           on_ok (gather (radius params) sink_comp_inds) (\<lambda>rad1.
           on_ok (gather (radius params) source_comp_inds) (\<lambda>rad2.
           on_ok (gather (axial_resistivity params) sink_comp_inds) (\<lambda>r_a1.
           on_ok (gather (axial_resistivity params) source_comp_inds) (\<lambda>r_a2.
           on_ok (gather (length_um params) sink_comp_inds) (\<lambda>l1.
           on_ok (gather (length_um params) source_comp_inds) (\<lambda>l2.
           on_ok (gather (capacitance params) sink_comp_inds) (\<lambda>cm.
             Inr (map2 (\<lambda>g c. g / c)
                    (vmap6 compute_coupling_cond rad1 rad2 r_a1 r_a2 l1 l2) cm))))))))
         else Inr [])"

definition conds_bp2c :: "comp_edge list \<Rightarrow> cond_params \<Rightarrow> error + real list" where
  \<comment> \<open>branchpoint-to-compartment: the rows of type 1 or 2\<close>
  "conds_bp2c comp_edges params =
     (let rows = filter (\<lambda>e. edge_type e \<in> set [1, 2]) comp_edges;
          sink_comp_inds = map sink rows
      in if length sink_comp_inds > 0 then
           on_ok (gather (radius params) sink_comp_inds) (\<lambda>rad.
           on_ok (gather (axial_resistivity params) sink_comp_inds) (\<lambda>r_a.
           on_ok (gather (length_um params) sink_comp_inds) (\<lambda>l.
           on_ok (gather (capacitance params) sink_comp_inds) (\<lambda>cm.
             Inr (map2 (\<lambda>g c. g / c)
                    (vmap3 compute_coupling_cond_branchpoint rad r_a l) cm)))))
         else Inr [])"

definition conds_c2bp :: "comp_edge list \<Rightarrow> cond_params \<Rightarrow> error + real list" where
  \<comment> \<open>compartment-to-branchpoint: the rows of type 3 or 4, times 1000\<close>
  "conds_c2bp comp_edges params =
     (let rows = filter (\<lambda>e. edge_type e \<in> set [3, 4]) comp_edges;
          source_comp_inds = map source rows
      in if length source_comp_inds > 0 then
           on_ok (gather (radius params) source_comp_inds) (\<lambda>rad.
           on_ok (gather (axial_resistivity params) source_comp_inds) (\<lambda>r_a.
           on_ok (gather (length_um params) source_comp_inds) (\<lambda>l.
             Inr (map (\<lambda>w. w * 1000) (vmap3 compute_impact_on_node rad r_a l)))))
         else Inr [])"

definition compute_axial_conductances :: "comp_edge list \<Rightarrow> cond_params \<Rightarrow> error + real list" where
  "compute_axial_conductances comp_edges params =
     on_ok (conds_c2c comp_edges params) (\<lambda>c2c.
     on_ok (conds_bp2c comp_edges params) (\<lambda>bp2c.
     on_ok (conds_c2bp comp_edges params) (\<lambda>c2bp.
       Inr (c2c @ bp2c @ c2bp))))"

text \<open>
  For the statements below. \<open>edges_in_range\<close>: the four parameter arrays have \<open>n\<close>
  entries, and every column the code reads names a compartment below \<open>n\<close>: source and
  sink of a type-0 row, the sink of a row of type 1 or 2, the source of a row of type 3
  or 4. The other end of a row of type 1 to 4 is a branch point and is not read; rows of
  other types are not read at all. Then the value the code computes for one row of each
  edge group, and \<open>divisors_nonzero\<close>: no division of these values is by zero.
\<close>

definition edges_in_range :: "nat \<Rightarrow> comp_edge list \<Rightarrow> cond_params \<Rightarrow> bool" where
  "edges_in_range n comp_edges params \<longleftrightarrow>
     length (radius params) = n \<and> length (axial_resistivity params) = n \<and>
     length (length_um params) = n \<and> length (capacitance params) = n \<and>
     (\<forall>e\<in>set comp_edges.
        (edge_type e = 0 \<longrightarrow>
           0 \<le> source e \<and> source e < int n \<and> 0 \<le> sink e \<and> sink e < int n) \<and>
        (edge_type e = 1 \<or> edge_type e = 2 \<longrightarrow> 0 \<le> sink e \<and> sink e < int n) \<and>
        (edge_type e = 3 \<or> edge_type e = 4 \<longrightarrow> 0 \<le> source e \<and> source e < int n))"

definition c2c_value :: "cond_params \<Rightarrow> comp_edge \<Rightarrow> real" where
  "c2c_value params e =
     compute_coupling_cond
       (radius params ! nat (sink e)) (radius params ! nat (source e))
       (axial_resistivity params ! nat (sink e)) (axial_resistivity params ! nat (source e))
       (length_um params ! nat (sink e)) (length_um params ! nat (source e))
     / capacitance params ! nat (sink e)"

definition bp2c_value :: "cond_params \<Rightarrow> comp_edge \<Rightarrow> real" where
  "bp2c_value params e =
     compute_coupling_cond_branchpoint
       (radius params ! nat (sink e)) (axial_resistivity params ! nat (sink e))
       (length_um params ! nat (sink e))
     / capacitance params ! nat (sink e)"

definition c2bp_value :: "cond_params \<Rightarrow> comp_edge \<Rightarrow> real" where
  "c2bp_value params e =
     compute_impact_on_node
       (radius params ! nat (source e)) (axial_resistivity params ! nat (source e))
       (length_um params ! nat (source e))
     * 1000"

definition divisors_nonzero :: "comp_edge list \<Rightarrow> cond_params \<Rightarrow> bool" where
  "divisors_nonzero comp_edges params \<longleftrightarrow>
     (\<forall>e\<in>set comp_edges.
        (edge_type e = 0 \<longrightarrow>
           axial_resistivity params ! nat (sink e) * (radius params ! nat (source e))\<^sup>2
               * length_um params ! nat (sink e)
             + axial_resistivity params ! nat (source e) * (radius params ! nat (sink e))\<^sup>2
               * length_um params ! nat (source e) \<noteq> 0
           \<and> length_um params ! nat (sink e) \<noteq> 0 \<and> capacitance params ! nat (sink e) \<noteq> 0) \<and>
        (edge_type e = 1 \<or> edge_type e = 2 \<longrightarrow>
           axial_resistivity params ! nat (sink e) \<noteq> 0 \<and> length_um params ! nat (sink e) \<noteq> 0
           \<and> capacitance params ! nat (sink e) \<noteq> 0) \<and>
        (edge_type e = 3 \<or> edge_type e = 4 \<longrightarrow>
           axial_resistivity params ! nat (source e) \<noteq> 0
           \<and> length_um params ! nat (source e) \<noteq> 0))"

section \<open>Coupling conductance: the formula and its scaling\<close>

text \<open>
  C1 (as stated, refuted): the conductance returned by \<open>compute_coupling_cond\<close> is not
  the specification's formula times \<open>10^7\<close>. At radii 1 and 2, resistivities 1 and
  lengths 1 (sink) and 2 (source) the code gives \<open>4/6 * 10^7\<close>, the specification's
  formula \<open>4/9 * 10^7\<close>.
\<close>

theorem coupling_cond_spec_formula_counterexample:
  "compute_coupling_cond 1 2 1 1 1 2 \<noteq> spec_coupling_formula 1 2 1 1 1 2 * 10 ^ 7"
  by (simp add: compute_coupling_cond_def spec_coupling_formula_def)

text \<open>
  C1 (amended): for strictly positive inputs the returned conductance is
  \<open>rad_sink * rad_source^2 / (ra_sink * rad_source^2 * len_sink +
  ra_source * rad_sink^2 * len_source) / len_sink\<close>, scaled by \<open>10^7\<close>: in the
  denominator each resistivity multiplies the length of its own compartment.
\<close>

theorem coupling_cond_own_length_formula:
  assumes "0 < rad_sink" "0 < rad_source" "0 < ra_sink" "0 < ra_source"
    "0 < len_sink" "0 < len_source"
  shows "compute_coupling_cond rad_sink rad_source ra_sink ra_source len_sink len_source =
    own_length_coupling_formula rad_sink rad_source ra_sink ra_source len_sink len_source * 10 ^ 7"
  by (simp add: compute_coupling_cond_def own_length_coupling_formula_def)

theorem coupling_cond_own_length_formula_witness:
  "compute_coupling_cond 1 2 1 1 1 2 = own_length_coupling_formula 1 2 1 1 1 2 * 10 ^ 7
   \<and> own_length_coupling_formula 1 2 1 1 1 2 = 2 / 3"
  using coupling_cond_own_length_formula [of 1 2 1 1 1 2]
  by (simp add: own_length_coupling_formula_def)

text \<open>
  C10: for positive inputs \<open>Cell.init_cell_conds\<close> returns, in each direction,
  \<open>10^7\<close> times the value of \<open>compute_coupling_cond\<close> on the same geometry; as that
  value already holds the factor \<open>10^7\<close>, the result is \<open>10^14\<close> times the unscaled
  formula.
\<close>

theorem init_cell_conds_scaled_twice:
  assumes "0 < ra_parent" "0 < ra_child" "0 < r_parent" "0 < r_child" "0 < l_parent" "0 < l_child"
  shows "init_cell_conds ra_parent ra_child r_parent r_child l_parent l_child =
     (10 ^ 7 * compute_coupling_cond r_child r_parent ra_child ra_parent l_child l_parent,
      10 ^ 7 * compute_coupling_cond r_parent r_child ra_parent ra_child l_parent l_child)
   \<and> fst (init_cell_conds ra_parent ra_child r_parent r_child l_parent l_child) =
       10 ^ 14 * (r_child * r_parent\<^sup>2
          / (ra_child * r_parent\<^sup>2 * l_child + ra_parent * r_child\<^sup>2 * l_parent) / l_child)
   \<and> snd (init_cell_conds ra_parent ra_child r_parent r_child l_parent l_child) =
       10 ^ 14 * (r_parent * r_child\<^sup>2
          / (ra_parent * r_child\<^sup>2 * l_parent + ra_child * r_parent\<^sup>2 * l_child) / l_parent)"
  by (simp add: init_cell_conds_def compute_coupling_cond_def)

theorem init_cell_conds_scaled_twice_witness:
  "init_cell_conds 1 1 1 2 1 1 =
     (10 ^ 7 * compute_coupling_cond 2 1 1 1 1 1, 10 ^ 7 * compute_coupling_cond 1 2 1 1 1 1)
   \<and> init_cell_conds 1 1 1 2 1 1 = (4 * 10 ^ 13, 8 * 10 ^ 13)"
proof -
  have eq: "init_cell_conds 1 1 1 2 1 1 =
     (10 ^ 7 * compute_coupling_cond 2 1 1 1 1 1, 10 ^ 7 * compute_coupling_cond 1 2 1 1 1 1)"
    using init_cell_conds_scaled_twice [of 1 1 1 2 1 1] by simp
  have "compute_coupling_cond 2 1 1 1 1 1 = 4 * 10 ^ 6" "compute_coupling_cond 1 2 1 1 1 1 = 8 * 10 ^ 6"
    by (simp_all add: compute_coupling_cond_def)
  with eq show ?thesis by simp
qed

section \<open>Levels of a topologically sorted parent array\<close>

lemma py_index_in_range:
  "0 \<le> i \<Longrightarrow> i < int (length xs) \<Longrightarrow> py_index xs i = Inr (xs ! nat i)"
  by (simp add: py_index_def)

lemma levels_ok_step:
  assumes sp: "sorted_parents parents" and i: "i < length parents"
    and len: "length levels = length parents"
    and ok: "levels_ok parents i levels"
    and v: "parents ! i = - 1 \<and> v = 0 \<or> parents ! i \<noteq> - 1 \<and> v = levels ! nat (parents ! i) + 1"
  shows "levels_ok parents (Suc i) (levels[i := v])"
  unfolding levels_ok_def
proof (intro allI impI)
  fix b assume b: "b < Suc i"
  have par: "parents ! b = - 1 \<or> (0 \<le> parents ! b \<and> parents ! b < int b)"
    using sp b i by (simp add: sorted_parents_def)
  show "(parents ! b = - 1 \<longrightarrow> levels[i := v] ! b = 0) \<and>
        (parents ! b \<noteq> - 1 \<longrightarrow> levels[i := v] ! b = levels[i := v] ! nat (parents ! b) + 1)"
  proof (cases "b = i")
    case True
    with par have "parents ! i \<noteq> - 1 \<longrightarrow> nat (parents ! i) \<noteq> i" by auto
    with True v i len show ?thesis by auto
  next
    case False
    with b have bi: "b < i" by simp
    with par have "parents ! b \<noteq> - 1 \<longrightarrow> nat (parents ! b) \<noteq> i" by auto
    with bi ok False show ?thesis by (auto simp: levels_ok_def)
  qed
qed

lemma levels_loop_correct:
  assumes "sorted_parents parents"
    and "parents = pre @ ps" and "i = length pre"
    and "length levels = length parents"
    and "levels_ok parents i levels"
  shows "\<exists>lv. levels_loop i ps levels = Inr lv \<and> length lv = length parents
            \<and> levels_ok parents (length parents) lv"
  using assms
proof (induction ps arbitrary: i pre levels)
  case Nil
  then show ?case by simp
next
  case (Cons p ps)
  have i: "i < length parents" and pi: "parents ! i = p"
    using Cons.prems by simp_all
  have par: "p = - 1 \<or> (0 \<le> p \<and> p < int i)"
    using Cons.prems(1) i pi by (auto simp: sorted_parents_def)
  define v where "v = (if p = - 1 then 0 else levels ! nat p + 1)"
  have step: "levels_loop i (p # ps) levels = levels_loop (Suc i) ps (levels[i := v])"
  proof (cases "p = - 1")
    case True
    then show ?thesis by (simp add: v_def)
  next
    case False
    with par i Cons.prems(4) have "py_index levels p = Inr (levels ! nat p)"
      by (intro py_index_in_range) auto
    with False show ?thesis by (simp add: v_def)
  qed
  have ok: "levels_ok parents (Suc i) (levels[i := v])"
    using Cons.prems(1) i Cons.prems(4) Cons.prems(5)
    by (rule levels_ok_step) (auto simp: v_def pi)
  have "\<exists>lv. levels_loop (Suc i) ps (levels[i := v]) = Inr lv \<and> length lv = length parents
            \<and> levels_ok parents (length parents) lv"
    using Cons.prems(1) _ _ _ ok
  proof (rule Cons.IH)
    show "parents = (pre @ [p]) @ ps" using Cons.prems by simp
    show "Suc i = length (pre @ [p])" using Cons.prems by simp
    show "length (levels[i := v]) = length parents" using Cons.prems by simp
  qed
  with step show ?case by simp
qed

text \<open>
  C3: for every parent array in which each non-root branch has a parent index that is a
  branch index strictly below its own (roots marked \<open>- 1\<close>), \<open>compute_levels\<close> returns
  an array of the same length with level 0 at every root and
  \<open>level[b] = level[parent[b]] + 1\<close> at every other branch.
\<close>

theorem compute_levels_correct:
  assumes "\<forall>b<length parents. parents ! b = - 1 \<or> (0 \<le> parents ! b \<and> parents ! b < int b)"
  shows "\<exists>levels. compute_levels parents = Inr levels \<and> length levels = length parents \<and>
     (\<forall>b<length parents.
        (parents ! b = - 1 \<longrightarrow> levels ! b = 0) \<and>
        (parents ! b \<noteq> - 1 \<longrightarrow> levels ! b = levels ! nat (parents ! b) + 1))"
proof -
  have sp: "sorted_parents parents" using assms by (simp add: sorted_parents_def)
  have "\<exists>lv. levels_loop 0 parents (replicate (length parents) 0) = Inr lv
          \<and> length lv = length parents \<and> levels_ok parents (length parents) lv"
    using sp by (rule levels_loop_correct [where pre = "[]"]) (simp_all add: levels_ok_def)
  then show ?thesis by (simp add: compute_levels_def levels_ok_def)
qed

theorem compute_levels_correct_witness:
  "\<exists>levels. compute_levels [- 1, 0, 0, 1] = Inr levels \<and> length levels = 4
      \<and> levels ! 0 = 0 \<and> levels ! 3 = levels ! 1 + 1"
proof -
  have h: "\<forall>b<length [- 1, 0, 0, 1 :: int].
      [- 1, 0, 0, 1 :: int] ! b = - 1 \<or> (0 \<le> [- 1, 0, 0, 1 :: int] ! b \<and> [- 1, 0, 0, 1 :: int] ! b < int b)"
    by (auto simp: nth_Cons' less_Suc_eq)
  from compute_levels_correct [OF h] obtain levels where
    l: "compute_levels [- 1, 0, 0, 1] = Inr levels" "length levels = length [- 1, 0, 0, 1 :: int]"
    and a: "\<forall>b<length [- 1, 0, 0, 1 :: int].
        ([- 1, 0, 0, 1 :: int] ! b = - 1 \<longrightarrow> levels ! b = 0) \<and>
        ([- 1, 0, 0, 1 :: int] ! b \<noteq> - 1 \<longrightarrow> levels ! b = levels ! nat ([- 1, 0, 0, 1 :: int] ! b) + 1)"
    by blast
  from a have "levels ! 0 = 0" by auto
  moreover from a have "levels ! 3 = levels ! 1 + 1"
    by (auto dest!: spec [of _ 3])
  ultimately show ?thesis using l by simp
qed

section \<open>Properties of the index remapping\<close>

lemma index_in_less: "x \<in> set u \<Longrightarrow> index_in u x < length u"
  by (induction u) auto

lemma nth_index_in: "x \<in> set u \<Longrightarrow> u ! index_in u x = x"
  by (induction u) auto

lemma index_in_nth: "distinct u \<Longrightarrow> i < length u \<Longrightarrow> index_in u (u ! i) = i"
proof (induction u arbitrary: i)
  case Nil
  then show ?case by simp
next
  case (Cons y ys)
  show ?case
  proof (cases i)
    case 0
    then show ?thesis by simp
  next
    case (Suc j)
    with Cons.prems have "ys ! j \<in> set ys" by simp
    with Cons.prems have "ys ! j \<noteq> y" by auto
    with Suc Cons show ?thesis by simp
  qed
qed

lemma np_unique_props:
  "sorted (np_unique arr)" "distinct (np_unique arr)" "set (np_unique arr) = set arr"
  "length (np_unique arr) = card (set arr)"
proof -
  show "sorted (np_unique arr)" "distinct (np_unique arr)" "set (np_unique arr) = set arr"
    by (simp_all add: np_unique_def)
  have "length (np_unique arr) = length (remdups arr)" by (simp add: np_unique_def)
  then show "length (np_unique arr) = card (set arr)" by (simp add: length_remdups_card_conv)
qed

lemma index_in_less_iff:
  assumes "sorted u" "distinct u" "x \<in> set u" "y \<in> set u"
  shows "index_in u x < index_in u y \<longleftrightarrow> x < y"
proof -
  let ?i = "index_in u x" and ?j = "index_in u y"
  have i: "?i < length u" and j: "?j < length u"
    using assms by (simp_all add: index_in_less)
  have xi: "u ! ?i = x" and yj: "u ! ?j = y" using assms by (simp_all add: nth_index_in)
  show ?thesis
  proof
    assume lt: "?i < ?j"
    with assms(1) j have "u ! ?i \<le> u ! ?j" by (simp add: sorted_nth_mono)
    moreover from lt i j assms(2) have "u ! ?i \<noteq> u ! ?j" by (simp add: nth_eq_iff_index_eq)
    ultimately show "x < y" using xi yj by simp
  next
    assume xy: "x < y"
    show "?i < ?j"
    proof (rule ccontr)
      assume "\<not> ?i < ?j"
      then have "?j \<le> ?i" by simp
      with assms(1) i have "u ! ?j \<le> u ! ?i" by (simp add: sorted_nth_mono)
      with xi yj xy show False by simp
    qed
  qed
qed

lemma remap_unfold:
  "remap_to_consecutive arr = map (\<lambda>x. int (index_in (np_unique arr) x)) arr"
  by (simp add: remap_to_consecutive_def unique_inverse_def Let_def)

lemma set_remap: "set (remap_to_consecutive arr) = int ` {0..<card (set arr)}"
proof -
  let ?u = "np_unique arr"
  have "index_in ?u ` set arr = {0..<length ?u}"
  proof (intro equalityI subsetI)
    fix n assume "n \<in> index_in ?u ` set arr"
    then show "n \<in> {0..<length ?u}"
      using index_in_less [of _ ?u] by (auto simp: np_unique_props(3))
  next
    fix n assume "n \<in> {0..<length ?u}"
    then have n: "n < length ?u" by simp
    then have "?u ! n \<in> set arr" using np_unique_props(3) [of arr] nth_mem by blast
    moreover have "index_in ?u (?u ! n) = n"
      using n by (simp add: index_in_nth np_unique_props(2))
    ultimately show "n \<in> index_in ?u ` set arr" by force
  qed
  then have "set (map (index_in ?u) arr) = {0..<card (set arr)}"
    by (simp add: np_unique_props(4))
  then have "int ` set (map (index_in ?u) arr) = int ` {0..<card (set arr)}" by simp
  then show ?thesis by (simp add: remap_unfold image_image)
qed

lemma remap_to_consecutive_correct:
  "length (remap_to_consecutive arr) = length arr
   \<and> (\<forall>i<length arr. \<forall>j<length arr.
        (remap_to_consecutive arr ! i = remap_to_consecutive arr ! j \<longleftrightarrow> arr ! i = arr ! j)
      \<and> (remap_to_consecutive arr ! i < remap_to_consecutive arr ! j \<longleftrightarrow> arr ! i < arr ! j))
   \<and> set (remap_to_consecutive arr) = int ` {0..<card (set arr)}"
proof (intro conjI allI impI)
  show "length (remap_to_consecutive arr) = length arr" by (simp add: remap_unfold)
  show "set (remap_to_consecutive arr) = int ` {0..<card (set arr)}" by (rule set_remap)
next
  fix i j assume i: "i < length arr" and j: "j < length arr"
  let ?u = "np_unique arr"
  have mem: "arr ! i \<in> set ?u" "arr ! j \<in> set ?u"
    using i j by (simp_all add: np_unique_props(3))
  have lt: "index_in ?u (arr ! i) < index_in ?u (arr ! j) \<longleftrightarrow> arr ! i < arr ! j"
    using np_unique_props(1,2) mem by (rule index_in_less_iff)
  have ri: "remap_to_consecutive arr ! i = int (index_in ?u (arr ! i))"
    using i by (simp only: remap_unfold nth_map)
  have rj: "remap_to_consecutive arr ! j = int (index_in ?u (arr ! j))"
    using j by (simp only: remap_unfold nth_map)
  show "remap_to_consecutive arr ! i < remap_to_consecutive arr ! j \<longleftrightarrow> arr ! i < arr ! j"
    unfolding ri rj using lt by (simp only: of_nat_less_iff)
  have "index_in ?u (arr ! i) = index_in ?u (arr ! j) \<longleftrightarrow> arr ! i = arr ! j"
    using nth_index_in [OF mem(1)] nth_index_in [OF mem(2)] by metis
  then show "remap_to_consecutive arr ! i = remap_to_consecutive arr ! j \<longleftrightarrow> arr ! i = arr ! j"
    unfolding ri rj by (simp only: of_nat_eq_iff)
qed

text \<open>
  C4 (as stated, refuted): the 64-bit array \<open>[4294967296, 0]\<close> has two distinct
  values, yet both positions get the output 0: \<open>4294967296 = 2^32\<close> keeps the low 32
  bits 0.
\<close>

theorem remap_int64_truncation_counterexample:
  "remap_to_consecutive_int64 [4294967296, 0] = [0, 0]"
  by (simp add: remap_to_consecutive_int64_def to_int32_def remap_to_consecutive_def
      unique_inverse_def np_unique_def Let_def)

text \<open>
  C4 (amended): for every integer array whose values all lie in the signed 32-bit range
  \<open>[- 2^31, 2^31)\<close>, \<open>remap_to_consecutive\<close> returns an array of the length of its
  input; two positions have equal outputs exactly when their inputs are equal, and a
  smaller output exactly when the input is smaller (the outputs follow the sorted order
  of the distinct inputs); the set of outputs is \<open>{0, ..., k - 1}\<close> for \<open>k\<close> distinct
  inputs.
\<close>

theorem remap_int64_correct_in_range:
  assumes "\<forall>x\<in>set arr. - (2 ^ 31) \<le> x \<and> x < 2 ^ 31"
  shows "length (remap_to_consecutive_int64 arr) = length arr
   \<and> (\<forall>i<length arr. \<forall>j<length arr.
        (remap_to_consecutive_int64 arr ! i = remap_to_consecutive_int64 arr ! j
           \<longleftrightarrow> arr ! i = arr ! j)
      \<and> (remap_to_consecutive_int64 arr ! i < remap_to_consecutive_int64 arr ! j
           \<longleftrightarrow> arr ! i < arr ! j))
   \<and> set (remap_to_consecutive_int64 arr) = int ` {0..<card (set arr)}"
proof -
  have "map to_int32 arr = map (\<lambda>x. x) arr"
  proof (rule map_cong [OF refl])
    fix x assume "x \<in> set arr"
    with assms have "- (2 ^ 31) \<le> x" "x < 2 ^ 31" by simp_all
    then show "to_int32 x = x" by (simp add: to_int32_def)
  qed
  then have "remap_to_consecutive_int64 arr = remap_to_consecutive arr"
    by (simp add: remap_to_consecutive_int64_def)
  then show ?thesis using remap_to_consecutive_correct [of arr] by simp
qed

theorem remap_int64_correct_in_range_witness:
  "length (remap_to_consecutive_int64 [0, 0, 1, 4, 4, 6, 6]) = 7
   \<and> remap_to_consecutive_int64 [0, 0, 1, 4, 4, 6, 6] ! 0
       = remap_to_consecutive_int64 [0, 0, 1, 4, 4, 6, 6] ! 1
   \<and> remap_to_consecutive_int64 [0, 0, 1, 4, 4, 6, 6] ! 2
       < remap_to_consecutive_int64 [0, 0, 1, 4, 4, 6, 6] ! 3
   \<and> set (remap_to_consecutive_int64 [0, 0, 1, 4, 4, 6, 6]) = int ` {0..<4}"
proof -
  have h: "\<forall>x\<in>set [0, 0, 1, 4, 4, 6, 6 :: int]. - (2 ^ 31) \<le> x \<and> x < 2 ^ 31" by simp
  note t = remap_int64_correct_in_range [OF h]
  have c: "card (set [0, 0, 1, 4, 4, 6, 6 :: int]) = 4" by simp
  from t have "length (remap_to_consecutive_int64 [0, 0, 1, 4, 4, 6, 6]) = 7" by simp
  moreover from t have "remap_to_consecutive_int64 [0, 0, 1, 4, 4, 6, 6] ! 0
       = remap_to_consecutive_int64 [0, 0, 1, 4, 4, 6, 6] ! 1"
    by (auto dest!: spec [of _ 0] spec [of _ 1])
  moreover from t have "remap_to_consecutive_int64 [0, 0, 1, 4, 4, 6, 6] ! 2
       < remap_to_consecutive_int64 [0, 0, 1, 4, 4, 6, 6] ! 3"
    by (auto dest!: spec [of _ 2] spec [of _ 3])
  moreover have "set (remap_to_consecutive_int64 [0, 0, 1, 4, 4, 6, 6]) = int ` {0..<4}"
    using t [THEN conjunct2, THEN conjunct2] unfolding c .
  ultimately show ?thesis by simp
qed

lemma np_unique_of_range:
  assumes "set b = int ` {0..<k}"
  shows "np_unique b = map int [0..<k]"
proof -
  have "sorted (map int [0..<k])"
    by (simp add: sorted_map sorted_wrt_iff_nth_less)
  moreover have "distinct (map int [0..<k])" by (simp add: distinct_map)
  moreover have "set (map int [0..<k]) = set (np_unique b)"
    using assms by (simp add: np_unique_props(3))
  ultimately show ?thesis
    using np_unique_props(1,2) [of b] by (metis sorted_distinct_set_unique)
qed

lemma index_in_map_int_upt: "i < k \<Longrightarrow> index_in (map int [0..<k]) (int i) = i"
proof -
  assume i: "i < k"
  have "index_in (map int [0..<k]) (map int [0..<k] ! i) = i"
    using i by (intro index_in_nth) (simp_all add: distinct_map)
  with i show ?thesis by simp
qed

text \<open>
  C5: \<open>remap_to_consecutive\<close> is idempotent: applied to its own result it returns
  that result.
\<close>

theorem remap_to_consecutive_idempotent:
  "remap_to_consecutive (remap_to_consecutive arr) = remap_to_consecutive arr"
proof -
  let ?b = "remap_to_consecutive arr" and ?k = "card (set arr)"
  have sb: "set ?b = int ` {0..<?k}" by (rule set_remap)
  then have u: "np_unique ?b = map int [0..<?k]" by (rule np_unique_of_range)
  have "map (\<lambda>x. int (index_in (map int [0..<?k]) x)) ?b = map (\<lambda>x. x) ?b"
  proof (rule map_cong [OF refl])
    fix x assume "x \<in> set ?b"
    with sb obtain i where "x = int i" "i < ?k" by auto
    then show "int (index_in (map int [0..<?k]) x) = x" by (simp add: index_in_map_int_upt)
  qed
  then show ?thesis using u by (simp add: remap_unfold [of ?b])
qed

section \<open>Grouped summation\<close>

lemma group_total_Nil: "group_total [] vs j = 0"
  by (simp add: group_total_def)

lemma group_total_Cons:
  "group_total (i # inds) (v # vs) j = (if i = int j then v else 0) + group_total inds vs j"
  by (simp add: group_total_def)

lemma add_at_in_range:
  "0 \<le> i \<Longrightarrow> i < int (length acc) \<Longrightarrow> add_at acc i v = acc[nat i := acc ! nat i + v]"
  by (simp add: add_at_def)

lemma scatter_add_sums:
  assumes "length inds = length vs" and "\<forall>i\<in>set inds. 0 \<le> i \<and> i < int (length acc)"
  shows "scatter_add acc inds vs = map (\<lambda>j. acc ! j + group_total inds vs j) [0..<length acc]"
  using assms
proof (induction inds arbitrary: acc vs)
  case Nil
  then show ?case by (simp add: group_total_Nil map_nth)
next
  case (Cons i inds)
  then obtain v vs' where vs: "vs = v # vs'" by (cases vs) auto
  have i: "0 \<le> i" "i < int (length acc)" using Cons.prems by simp_all
  let ?acc = "acc[nat i := acc ! nat i + v]"
  have "scatter_add acc (i # inds) vs = scatter_add ?acc inds vs'"
    using i by (simp add: vs add_at_in_range)
  also have "\<dots> = map (\<lambda>j. ?acc ! j + group_total inds vs' j) [0..<length ?acc]"
    using Cons.prems by (intro Cons.IH) (simp_all add: vs)
  also have "\<dots> = map (\<lambda>j. acc ! j + group_total (i # inds) vs j) [0..<length acc]"
  proof (rule nth_equalityI)
    show "length (map (\<lambda>j. ?acc ! j + group_total inds vs' j) [0..<length ?acc]) =
          length (map (\<lambda>j. acc ! j + group_total (i # inds) vs j) [0..<length acc])"
      by simp
  next
    fix j assume "j < length (map (\<lambda>j. ?acc ! j + group_total inds vs' j) [0..<length ?acc])"
    then have j: "j < length acc" by simp
    have "?acc ! j + group_total inds vs' j = acc ! j + group_total (i # inds) (v # vs') j"
    proof (cases "j = nat i")
      case True
      with i j show ?thesis by (simp add: group_total_Cons)
    next
      case False
      with i have "i \<noteq> int j" by auto
      with False j show ?thesis by (simp add: group_total_Cons)
    qed
    with j show "map (\<lambda>j. ?acc ! j + group_total inds vs' j) [0..<length ?acc] ! j =
          map (\<lambda>j. acc ! j + group_total (i # inds) vs j) [0..<length acc] ! j"
      by (simp add: vs)
  qed
  finally show ?case .
qed

text \<open>
  C7: for value and index arrays of one length with every index in \<open>[0, n)\<close>,
  \<open>group_and_sum\<close> returns the array of length \<open>n\<close> whose entry \<open>j\<close> is the sum of
  the values with group index \<open>j\<close>; for \<open>n = 0\<close> it returns the empty array, without
  an error, whatever the other arguments.
\<close>

theorem group_and_sum_correct:
  "(length inds = length vs \<and> (\<forall>i\<in>set inds. 0 \<le> i \<and> i < int n) \<longrightarrow>
      group_and_sum vs inds n =
        Inr (map (\<lambda>j. sum_list (map snd (filter (\<lambda>(i, v). i = int j) (zip inds vs)))) [0..<n]))
   \<and> group_and_sum vs' inds' 0 = Inr []"
proof (intro conjI impI)
  show "group_and_sum vs' inds' 0 = Inr []" by (simp add: group_and_sum_def)
next
  assume h: "length inds = length vs \<and> (\<forall>i\<in>set inds. 0 \<le> i \<and> i < int n)"
  then have bc: "broadcast_to vs (length inds) = Inr vs" by (simp add: broadcast_to_def)
  have "scatter_add (replicate n 0) inds vs =
      map (\<lambda>j. replicate n 0 ! j + group_total inds vs j) [0..<length (replicate n (0::real))]"
    using h by (intro scatter_add_sums) simp_all
  also have "\<dots> = map (\<lambda>j. group_total inds vs j) [0..<n]" by simp
  finally have sc: "scatter_add (replicate n 0) inds vs = map (\<lambda>j. group_total inds vs j) [0..<n]" .
  show "group_and_sum vs inds n =
        Inr (map (\<lambda>j. sum_list (map snd (filter (\<lambda>(i, v). i = int j) (zip inds vs)))) [0..<n])"
  proof (cases "n = 0")
    case True
    then show ?thesis by (simp add: group_and_sum_def)
  next
    case False
    then show ?thesis using bc sc by (simp add: group_and_sum_def group_total_def)
  qed
qed

theorem group_and_sum_correct_witness:
  "group_and_sum [3, 4, 5] [0, 0, 1] 2 = Inr [7, 5] \<and> group_and_sum [3, 4, 5] [0, 0, 1] 0 = Inr []"
  using group_and_sum_correct [of "[0, 0, 1]" "[3, 4, 5]" 2 "[3, 4, 5]" "[0, 0, 1]"]
  by (simp add: upt_conv_Cons)

section \<open>The three-branch tree\<close>

text \<open>
  C8: the tree of three branches with parents \<open>[- 1, 0, 0]\<close> has levels
  \<open>[0, 1, 1]\<close>; its edge table gives one branch point (\<open>par_inds = [0]\<close>,
  \<open>child_belongs_to_branchpoint = [0, 0]\<close>, children 1 and 2), and the index tables
  are the rows \<open>(1, 0)\<close>, \<open>(2, 0)\<close> for the children and \<open>(0, 0)\<close> for the parents.
\<close>

theorem three_branch_tree:
  "compute_levels [- 1, 0, 0] = Inr [0, 1, 1]
   \<and> compute_children_and_parents (cell_branch_edges [- 1, 0, 0]) = ([0], [1, 2], [0, 0])
   \<and> compute_morphology_indices_in_levels 1 [0, 0] [0] [1, 2] =
       Inr \<lparr>children_table = [(1, 0), (2, 0)], parents_table = [(0, 0)]\<rparr>"
  by (simp add: compute_levels_def py_index_def compute_children_and_parents_def
      cell_branch_edges_def remap_to_consecutive_def unique_inverse_def np_unique_def
      compute_morphology_indices_in_levels_def stack_T_def upt_conv_Cons Let_def)

section \<open>Assembly of the axial conductances\<close>

lemma on_ok_Inr: "on_ok (Inr x) f = f x"
  by (simp add: on_ok_def)

lemma gather_in_range:
  "\<forall>i\<in>set inds. 0 \<le> i \<and> i < int (length xs) \<Longrightarrow>
     gather xs inds = Inr (map (\<lambda>i. xs ! nat i) inds)"
  by (induction inds) (simp_all add: py_index_def)

lemma gather_column:
  assumes "\<forall>e\<in>set rows. 0 \<le> col e \<and> col e < int (length xs)"
  shows "gather xs (map col rows) = Inr (map (\<lambda>e. xs ! nat (col e)) rows)"
proof -
  have "gather xs (map col rows) = Inr (map (\<lambda>i. xs ! nat i) (map col rows))"
    using assms by (intro gather_in_range) auto
  then show ?thesis by (simp add: comp_def)
qed

lemma vmap6_columns:
  "vmap6 f (map a rows) (map b rows) (map c rows) (map d rows) (map e rows) (map g rows) =
     map (\<lambda>r. f (a r) (b r) (c r) (d r) (e r) (g r)) rows"
  by (induction rows) simp_all

lemma vmap3_columns:
  "vmap3 f (map a rows) (map b rows) (map c rows) = map (\<lambda>r. f (a r) (b r) (c r)) rows"
  by (induction rows) simp_all

lemma map2_columns: "map2 f (map a rows) (map b rows) = map (\<lambda>r. f (a r) (b r)) rows"
  by (induction rows) simp_all

lemma conds_c2c_rows:
  assumes "edges_in_range n comp_edges params"
  shows "conds_c2c comp_edges params =
    Inr (map (c2c_value params) (filter (\<lambda>e. edge_type e = 0) comp_edges))"
proof -
  let ?rows = "filter (\<lambda>e. edge_type e = 0) comp_edges"
  have src: "\<And>xs. length xs = n \<Longrightarrow>
      gather xs (map source ?rows) = Inr (map (\<lambda>e. xs ! nat (source e)) ?rows)"
    using assms by (intro gather_column) (auto simp: edges_in_range_def)
  have snk: "\<And>xs. length xs = n \<Longrightarrow>
      gather xs (map sink ?rows) = Inr (map (\<lambda>e. xs ! nat (sink e)) ?rows)"
    using assms by (intro gather_column) (auto simp: edges_in_range_def)
  have len: "length (radius params) = n" "length (axial_resistivity params) = n"
    "length (length_um params) = n" "length (capacitance params) = n"
    using assms by (simp_all add: edges_in_range_def)
  show ?thesis
  proof (cases "?rows = []")
    case True
    then show ?thesis unfolding conds_c2c_def Let_def by (simp only: list.map list.size if_False less_irrefl)
  next
    case False
    then have "0 < length (map sink ?rows)" by simp
    then show ?thesis
      unfolding conds_c2c_def Let_def c2c_value_def [abs_def]
      by (simp only: if_True src [OF len(1)] src [OF len(2)] src [OF len(3)]
          snk [OF len(1)] snk [OF len(2)] snk [OF len(3)] snk [OF len(4)]
          vmap6_columns map2_columns on_ok_Inr)
  qed
qed

lemma conds_bp2c_rows:
  assumes "edges_in_range n comp_edges params"
  shows "conds_bp2c comp_edges params =
    Inr (map (bp2c_value params) (filter (\<lambda>e. edge_type e \<in> set [1, 2]) comp_edges))"
proof -
  let ?rows = "filter (\<lambda>e. edge_type e \<in> set [1, 2]) comp_edges"
  have snk: "\<And>xs. length xs = n \<Longrightarrow>
      gather xs (map sink ?rows) = Inr (map (\<lambda>e. xs ! nat (sink e)) ?rows)"
    using assms by (intro gather_column) (auto simp: edges_in_range_def)
  have len: "length (radius params) = n" "length (axial_resistivity params) = n"
    "length (length_um params) = n" "length (capacitance params) = n"
    using assms by (simp_all add: edges_in_range_def)
  show ?thesis
  proof (cases "?rows = []")
    case True
    then show ?thesis unfolding conds_bp2c_def Let_def by (simp only: list.map list.size if_False less_irrefl)
  next
    case False
    then have "0 < length (map sink ?rows)" by simp
    then show ?thesis
      unfolding conds_bp2c_def Let_def bp2c_value_def [abs_def]
      by (simp only: if_True
          snk [OF len(1)] snk [OF len(2)] snk [OF len(3)] snk [OF len(4)]
          vmap3_columns map2_columns on_ok_Inr)
  qed
qed

lemma conds_c2bp_rows:
  assumes "edges_in_range n comp_edges params"
  shows "conds_c2bp comp_edges params =
    Inr (map (c2bp_value params) (filter (\<lambda>e. edge_type e \<in> set [3, 4]) comp_edges))"
proof -
  let ?rows = "filter (\<lambda>e. edge_type e \<in> set [3, 4]) comp_edges"
  have src: "\<And>xs. length xs = n \<Longrightarrow>
      gather xs (map source ?rows) = Inr (map (\<lambda>e. xs ! nat (source e)) ?rows)"
    using assms by (intro gather_column) (auto simp: edges_in_range_def)
  have len: "length (radius params) = n" "length (axial_resistivity params) = n"
    "length (length_um params) = n"
    using assms by (simp_all add: edges_in_range_def)
  show ?thesis
  proof (cases "?rows = []")
    case True
    then show ?thesis unfolding conds_c2bp_def Let_def by (simp only: list.map list.size if_False less_irrefl)
  next
    case False
    then have "0 < length (map source ?rows)" by simp
    then show ?thesis
      unfolding conds_c2bp_def Let_def c2bp_value_def [abs_def]
      by (simp only: if_True src [OF len(1)] src [OF len(2)] src [OF len(3)]
          vmap3_columns on_ok_Inr list.map_comp comp_def)
  qed
qed

lemma axial_conductances_rows:
  assumes "edges_in_range n comp_edges params"
  shows "compute_axial_conductances comp_edges params =
    Inr (map (c2c_value params) (filter (\<lambda>e. edge_type e = 0) comp_edges)
       @ map (bp2c_value params) (filter (\<lambda>e. edge_type e \<in> set [1, 2]) comp_edges)
       @ map (c2bp_value params) (filter (\<lambda>e. edge_type e \<in> set [3, 4]) comp_edges))"
  by (simp only: compute_axial_conductances_def conds_c2c_rows [OF assms]
      conds_bp2c_rows [OF assms] conds_c2bp_rows [OF assms] on_ok_Inr)

text \<open>
  C6: for an edge table and strictly positive parameter arrays (every column the code
  reads naming a compartment of the arrays), \<open>compute_axial_conductances\<close> returns the
  concatenation of the values of the type-0 rows, then of the rows of type 1 or 2, then
  of the rows of type 3 or 4, each group in table order; the first two groups are the
  coupling conductances divided by the capacitance of the sink, the third is the node
  impact weight of the source times 1000, not divided by a capacitance.
\<close>

theorem axial_conductances_concatenation:
  assumes "edges_in_range n comp_edges params"
    and "\<forall>x\<in>set (radius params). 0 < x" and "\<forall>x\<in>set (axial_resistivity params). 0 < x"
    and "\<forall>x\<in>set (length_um params). 0 < x" and "\<forall>x\<in>set (capacitance params). 0 < x"
  shows "compute_axial_conductances comp_edges params = Inr (
      map (\<lambda>e. compute_coupling_cond
                 (radius params ! nat (sink e)) (radius params ! nat (source e))
                 (axial_resistivity params ! nat (sink e)) (axial_resistivity params ! nat (source e))
                 (length_um params ! nat (sink e)) (length_um params ! nat (source e))
               / capacitance params ! nat (sink e))
        (filter (\<lambda>e. edge_type e = 0) comp_edges)
    @ map (\<lambda>e. compute_coupling_cond_branchpoint
                 (radius params ! nat (sink e)) (axial_resistivity params ! nat (sink e))
                 (length_um params ! nat (sink e))
               / capacitance params ! nat (sink e))
        (filter (\<lambda>e. edge_type e = 1 \<or> edge_type e = 2) comp_edges)
    @ map (\<lambda>e. compute_impact_on_node
                 (radius params ! nat (source e)) (axial_resistivity params ! nat (source e))
                 (length_um params ! nat (source e))
               * 1000)
        (filter (\<lambda>e. edge_type e = 3 \<or> edge_type e = 4) comp_edges))"
  using axial_conductances_rows [OF assms(1)]
  by (simp add: c2c_value_def [abs_def] bp2c_value_def [abs_def] c2bp_value_def [abs_def])

text \<open>
  The witness has two compartments (0 and 1) and a branch point numbered 2, outside the
  parameter arrays; the row of type 3 comes first in the table and last in the result.
\<close>

theorem axial_conductances_concatenation_witness:
  "compute_axial_conductances
     [\<lparr>edge_type = 3, source = 1, sink = 2\<rparr>, \<lparr>edge_type = 0, source = 1, sink = 0\<rparr>,
      \<lparr>edge_type = 1, source = 2, sink = 1\<rparr>]
     \<lparr>radius = [1, 2], axial_resistivity = [1, 1], length_um = [1, 1], capacitance = [2, 4]\<rparr>
   = Inr [4000000, 5000000, 4000]"
proof -
  let ?es = "[\<lparr>edge_type = 3, source = 1, sink = 2\<rparr>, \<lparr>edge_type = 0, source = 1, sink = 0\<rparr>,
      \<lparr>edge_type = 1, source = 2, sink = 1\<rparr>]"
  let ?p = "\<lparr>radius = [1, 2], axial_resistivity = [1, 1], length_um = [1, 1], capacitance = [2, 4]\<rparr>"
  have r: "edges_in_range 2 ?es ?p" by (simp add: edges_in_range_def)
  show ?thesis
    using axial_conductances_concatenation [OF r]
    by (simp add: compute_coupling_cond_def compute_coupling_cond_branchpoint_def
        compute_impact_on_node_def)
qed

text \<open>
  C2 (as stated, refuted): with radius \<open>- 1\<close> at the sink of a type-0 edge the call
  does not fail; it returns the negative conductance \<open>- 5 * 10^6\<close>.
\<close>

theorem axial_conductances_negative_counterexample:
  "compute_axial_conductances [\<lparr>edge_type = 0, source = 1, sink = 0\<rparr>]
     \<lparr>radius = [- 1, 1], axial_resistivity = [1, 1], length_um = [1, 1], capacitance = [1, 1]\<rparr>
   = Inr [- 5000000]"
  by (simp add: compute_axial_conductances_def conds_c2c_def conds_bp2c_def conds_c2bp_def
      on_ok_def py_index_def compute_coupling_cond_def)

text \<open>
  C2 (amended): \<open>compute_axial_conductances\<close> validates no parameter value. Whatever
  the signs of radius, length, axial resistivity and capacitance, when every column the
  code reads names a compartment of the arrays and no formula divides by zero, it
  reports no error and returns the values of the formulas as they stand: the coupling
  conductance over the sink's capacitance for every row of type 0, the branch-point
  conductance over the sink's capacitance for every row of type 1 or 2, and 1000 times
  the node impact weight for every row of type 3 or 4.
\<close>

theorem axial_conductances_no_validation:
  assumes "edges_in_range n comp_edges params" and "divisors_nonzero comp_edges params"
  shows "compute_axial_conductances comp_edges params = Inr (
      map (c2c_value params) (filter (\<lambda>e. edge_type e = 0) comp_edges)
    @ map (bp2c_value params) (filter (\<lambda>e. edge_type e = 1 \<or> edge_type e = 2) comp_edges)
    @ map (c2bp_value params) (filter (\<lambda>e. edge_type e = 3 \<or> edge_type e = 4) comp_edges))"
  using axial_conductances_rows [OF assms(1)] by simp

theorem axial_conductances_no_validation_witness:
  "compute_axial_conductances
     [\<lparr>edge_type = 3, source = 1, sink = 2\<rparr>, \<lparr>edge_type = 0, source = 1, sink = 0\<rparr>,
      \<lparr>edge_type = 2, source = 2, sink = 0\<rparr>]
     \<lparr>radius = [- 1, 1], axial_resistivity = [1, 1], length_um = [1, 1], capacitance = [1, - 2]\<rparr>
   = Inr [- 5000000, - 10000000, 1000]"
proof -
  let ?es = "[\<lparr>edge_type = 3, source = 1, sink = 2\<rparr>, \<lparr>edge_type = 0, source = 1, sink = 0\<rparr>,
      \<lparr>edge_type = 2, source = 2, sink = 0\<rparr>]"
  let ?p = "\<lparr>radius = [- 1, 1], axial_resistivity = [1, 1], length_um = [1, 1], capacitance = [1, - 2]\<rparr>"
  have r: "edges_in_range 2 ?es ?p" by (simp add: edges_in_range_def)
  have d: "divisors_nonzero ?es ?p" by (simp add: divisors_nonzero_def)
  show ?thesis
    using axial_conductances_no_validation [OF r d]
    by (simp add: c2c_value_def bp2c_value_def c2bp_value_def compute_coupling_cond_def
        compute_coupling_cond_branchpoint_def compute_impact_on_node_def)
qed

end
